theory Spec2Isabelle
  imports Complex_Main "HOL-Library.Stream"
begin

section \<open>Python values: exceptions and checked indexing\<close>

text \<open>
  An exception is a value: a computation returns \<open>Inl e\<close> when it raises \<open>e\<close> and
  \<open>Inr v\<close> when it returns \<open>v\<close>. The source has no \<open>raise\<close> and no \<open>try\<close>
  of its own; what can be raised is Python's IndexError (a subscript out of range) and
  whatever a call into the symbolic kernel raises.
\<close>

datatype error = IndexError | NonInvertibleMatrixError | NonSquareMatrixError | KernelError

definition bindE :: "error + 'x \<Rightarrow> ('x \<Rightarrow> error + 'y) \<Rightarrow> error + 'y" where
  "bindE m f = (case m of Inl e \<Rightarrow> Inl e | Inr v \<Rightarrow> f v)"

text \<open>\<open>xs[n]\<close> for an index that is never negative.\<close>

definition getitem :: "'x list \<Rightarrow> nat \<Rightarrow> error + 'x" where
  "getitem xs n = (if n < length xs then Inr (xs ! n) else Inl IndexError)"

text \<open>\<open>list2d[n][j]\<close> on a nested list, and \<open>mat_inv[i, n]\<close> on a matrix held in rows.\<close>

definition getitem2 :: "'x list list \<Rightarrow> nat \<Rightarrow> nat \<Rightarrow> error + 'x" where
  "getitem2 m a b = bindE (getitem m a) (\<lambda>row. getitem row b)"

text \<open>
  An entry of \<open>christlist\<close>: the Python int 0 that \<open>np.zeros(..., dtype=int).tolist()\<close>
  puts there, or an expression of the canonical kernel stored by the loop.
\<close>

datatype 'e cell = IntZero | Expr 'e

text \<open>\<open>christlist[i][j][k] = v\<close>: two subscript reads, then a subscript store.\<close>

definition setitem3 :: "'x list list list \<Rightarrow> nat \<Rightarrow> nat \<Rightarrow> nat \<Rightarrow> 'x \<Rightarrow> error + 'x list list list" where
  "setitem3 christlist i j k v =
     bindE (getitem christlist i) (\<lambda>plane.
     bindE (getitem plane j) (\<lambda>line.
       if k < length line then Inr (christlist[i := plane[j := line[k := v]]])
       else Inl IndexError))"

section \<open>The symbolic kernel\<close>

text \<open>
  SymPy and SymEngine are not part of the repository: the kernel is a parameter.
  Expressions are taken up to mathematical equality, as elements of a field, so that
  \<open>+\<close>, \<open>-\<close>, \<open>*\<close> and \<open>/ 2\<close> of the source are the field's. \<open>'a\<close> is the type of
  the expressions the caller supplies (the canonical, SymPy ones), \<open>'b\<close> the type of the
  expressions the kernel computes with, \<open>'s\<close> the type of coordinate symbols.
  \<^item> \<open>Matrix\<close> is the constructor \<open>Matrix(list2d)\<close>, the matrix held as its list of rows;
  \<^item> \<open>inv\<^sub>M\<close> is the method \<open>mat.inv()\<close>;
  \<^item> \<open>diff\<close> is \<open>diff(expr, symbol)\<close>.
  Each may raise.
\<close>

record ('a, 'b, 's) kernel =
  Matrix :: "'a list list \<Rightarrow> error + 'b list list"
  inv\<^sub>M :: "'b list list \<Rightarrow> error + 'b list list"
  diff :: "'a \<Rightarrow> 's \<Rightarrow> error + 'b"

section \<open>The timing wrapper (lines 22-35)\<close>

text \<open>
  The world a call runs in: the readings \<open>time.time()\<close> will return, in order, and the
  lines printed so far. A wrapped function takes its arguments and the world, and gives
  its result or exception and the world it leaves.
\<close>

record 't world =
  clock :: "'t stream"
  stdout :: "string list"

definition time_time :: "'t world \<Rightarrow> 't \<times> 't world" where
  "time_time w = (shd (clock w), w\<lparr>clock := stl (clock w)\<rparr>)"

definition print :: "string \<Rightarrow> 't world \<Rightarrow> 't world" where
  "print s w = w\<lparr>stdout := stdout w @ [s]\<rparr>"

text \<open>
  \<open>str\<close> renders \<open>end - start\<close> as \<open>format\<close> does, \<open>name\<close> is \<open>func.__name__\<close>.
  When \<open>func\<close> raises, the statements after the call do not run.
\<close>

definition function_timer ::
  "('t::minus \<Rightarrow> string) \<Rightarrow> string \<Rightarrow> ('x \<Rightarrow> 't world \<Rightarrow> (error + 'v) \<times> 't world)
     \<Rightarrow> 'x \<Rightarrow> 't world \<Rightarrow> (error + 'v) \<times> 't world" where
  "function_timer str name func args w =
     (let (start, w1) = time_time w;
          (r, w2) = func args w1
      in case r of
           Inl e \<Rightarrow> (Inl e, w2)
         | Inr val \<Rightarrow>
             (let (end, w3) = time_time w2;
                  runtime = end - start;
                  msg = ''The runtime for '' @ name @ '' took '' @ str runtime
                        @ '' seconds to complete''
              in (Inr val, print msg w3)))"

definition timeit ::
  "('t::minus \<Rightarrow> string) \<Rightarrow> string \<Rightarrow> ('x \<Rightarrow> 't world \<Rightarrow> (error + 'v) \<times> 't world)
     \<Rightarrow> ('x \<Rightarrow> 't world \<Rightarrow> (error + 'v) \<times> 't world)" where
  "timeit str name func = function_timer str name func"

section \<open>The Christoffel engines (lines 38-58 and 61-82)\<close>

text \<open>
  \<open>_counterlist\<close> and the decomposition of \<open>t\<close> (lines 43-49, 66-72).
  \<open>int(t / dims)\<close> divides two floats and truncates; for the non-negative integers
  below \<open>2^53\<close> that is the integer quotient, and a tensor of more entries cannot be
  allocated, so the quotient is written \<open>div\<close>.
\<close>

definition counterlist :: "nat \<Rightarrow> nat list" where
  "counterlist dims = [0 ..< dims ^ 3]"

definition index_k :: "nat \<Rightarrow> nat \<Rightarrow> nat" where
  "index_k dims t = t mod dims"

definition index_j :: "nat \<Rightarrow> nat \<Rightarrow> nat" where
  "index_j dims t = (t div dims) mod dims"

definition index_i :: "nat \<Rightarrow> nat \<Rightarrow> nat" where
  "index_i dims t = (t div (dims ^ 2)) mod dims"

definition triple :: "nat \<Rightarrow> nat \<Rightarrow> nat \<times> nat \<times> nat" where
  "triple dims t = (index_i dims t, index_j dims t, index_k dims t)"

text \<open>
  One pass of the body of \<open>for n in range(dims)\<close> (lines 52-56, 75-79), without the
  \<open>temp +=\<close>: the subscripts and the calls in the order Python evaluates them.
\<close>

definition summand ::
  "('a, 'b::field, 's) kernel \<Rightarrow> 'b list list \<Rightarrow> 'a list list \<Rightarrow> 's list
     \<Rightarrow> nat \<Rightarrow> nat \<Rightarrow> nat \<Rightarrow> nat \<Rightarrow> error + 'b" where
  "summand kern mat_inv list2d syms i j k n =
     bindE (getitem2 mat_inv i n) (\<lambda>a.
     bindE (getitem2 list2d n j) (\<lambda>g_nj.
     bindE (getitem syms k) (\<lambda>s_k.
     bindE (diff kern g_nj s_k) (\<lambda>d1.
     bindE (getitem2 list2d n k) (\<lambda>g_nk.
     bindE (getitem syms j) (\<lambda>s_j.
     bindE (diff kern g_nk s_j) (\<lambda>d2.
     bindE (getitem2 list2d j k) (\<lambda>g_jk.
     bindE (getitem syms n) (\<lambda>s_n.
     bindE (diff kern g_jk s_n) (\<lambda>d3.
       Inr ((a / 2) * (d1 + d2 - d3))))))))))))"

text \<open>The loop \<open>for n in range(dims): temp += ...\<close>.\<close>

fun inner_loop :: "(nat \<Rightarrow> error + 'b::field) \<Rightarrow> nat list \<Rightarrow> 'b \<Rightarrow> error + 'b" where
  "inner_loop f [] temp = Inr temp"
| "inner_loop f (n # ns) temp = bindE (f n) (\<lambda>x. inner_loop f ns (temp + x))"

text \<open>
  Lines 50-57 (and 73-81) for one triple: \<open>temp = 0\<close>, the inner loop, and the value
  that is stored. \<open>conv\<close> is what is applied to \<open>temp\<close> before the store: nothing in
  \<open>christoffels_reference\<close>, \<open>sympy.S\<close> in \<open>christoffels_symengine\<close>.
\<close>

definition entry ::
  "('a, 'b::field, 's) kernel \<Rightarrow> ('b \<Rightarrow> error + 'a) \<Rightarrow> 'b list list \<Rightarrow> 'a list list \<Rightarrow> 's list
     \<Rightarrow> nat \<Rightarrow> nat \<Rightarrow> nat \<Rightarrow> error + 'a" where
  "entry kern conv mat_inv list2d syms i j k =
     bindE (inner_loop (summand kern mat_inv list2d syms i j k) [0 ..< length syms] 0) conv"

text \<open>The loop \<open>for t in _counterlist\<close>, with \<open>christlist\<close> as its state.\<close>

fun outer_loop ::
  "nat \<Rightarrow> (nat \<Rightarrow> nat \<Rightarrow> nat \<Rightarrow> error + 'a) \<Rightarrow> nat list \<Rightarrow> 'a cell list list list
     \<Rightarrow> error + 'a cell list list list" where
  "outer_loop dims ent [] christlist = Inr christlist"
| "outer_loop dims ent (t # ts) christlist =
     (let k = index_k dims t; j = index_j dims t; i = index_i dims t
      in bindE (ent i j k) (\<lambda>temp.
         bindE (setitem3 christlist i j k (Expr temp)) (\<lambda>christlist'.
           outer_loop dims ent ts christlist')))"

text \<open>
  The body shared by the two functions, which differ in the kernel they call and in the
  conversion before the store. Allocation, construction and inversion come in the order
  of lines 39-42. Both functions carry the decorator \<open>@timeit\<close>, which hands the
  result or the exception of the body through unchanged (claim C9 below); the engines
  are modelled by their bodies.
\<close>

definition christoffels ::
  "('a, 'b::field, 's) kernel \<Rightarrow> ('b \<Rightarrow> error + 'a) \<Rightarrow> 'a list list \<Rightarrow> 's list
     \<Rightarrow> error + 'a cell list list list" where
  "christoffels kern conv list2d syms =
     (let dims = length syms;
          christlist = replicate dims (replicate dims (replicate dims IntZero))
      in bindE (Matrix kern list2d) (\<lambda>mat.
         bindE (inv\<^sub>M kern mat) (\<lambda>mat_inv.
           outer_loop dims (entry kern conv mat_inv list2d syms) (counterlist dims) christlist)))"

definition christoffels_reference ::
  "('a::field, 'a, 's) kernel \<Rightarrow> 'a list list \<Rightarrow> 's list \<Rightarrow> error + 'a cell list list list" where
  "christoffels_reference sympy list2d syms = christoffels sympy Inr list2d syms"

text \<open>\<open>S\<close> is \<open>sympy.S\<close> on an expression of the alternate kernel; it may raise.\<close>

definition christoffels_symengine ::
  "('a, 'b::field, 's) kernel \<Rightarrow> ('b \<Rightarrow> error + 'a) \<Rightarrow> 'a list list \<Rightarrow> 's list
     \<Rightarrow> error + 'a cell list list list" where
  "christoffels_symengine symengine S list2d syms = christoffels symengine S list2d syms"

section \<open>The driver (lines 85-93)\<close>

text \<open>
  \<open>sympy.symbols('r theta phi')\<close> gives the three symbols of these names. A symbol is
  used in two ways: as the variable \<open>diff\<close> differentiates by (its name, here) and as
  an expression (\<open>Symbol\<close> of the name). \<open>sin\<^sub>e\<close> is \<open>sympy.sin\<close>.
\<close>

definition main_syms :: "string list" where
  "main_syms = [''r'', ''theta'', ''phi'']"

definition main_metric :: "(string \<Rightarrow> 'a::field) \<Rightarrow> ('a \<Rightarrow> 'a) \<Rightarrow> 'a list list" where
  "main_metric Symbol sin\<^sub>e =
     (let syms = map Symbol main_syms;
          metric0 = replicate 3 (replicate 3 0);
          metric1 = metric0[0 := (metric0 ! 0)[0 := 1]];
          metric2 = metric1[1 := (metric1 ! 1)[1 := (syms ! 0) ^ 2]];
          metric3 = metric2[2 := (metric2 ! 2)[2 := (syms ! 0) ^ 2 * (sin\<^sub>e (syms ! 1)) ^ 2]]
      in metric3)"

text \<open>\<open>main\<close> returns nothing; the model returns the two tensors it has computed.\<close>

definition main ::
  "(string \<Rightarrow> 'a::field) \<Rightarrow> ('a \<Rightarrow> 'a) \<Rightarrow> ('a, 'a, string) kernel \<Rightarrow> ('a, 'b::field, string) kernel
     \<Rightarrow> ('b \<Rightarrow> error + 'a)
     \<Rightarrow> (error + 'a cell list list list) \<times> (error + 'a cell list list list)" where
  "main Symbol sin\<^sub>e sympy symengine S =
     (let syms = main_syms;
          metric = main_metric Symbol sin\<^sub>e;
          ch_reference = christoffels_reference sympy metric syms;
          ch_symengine = christoffels_symengine symengine S metric syms
      in (ch_reference, ch_symengine))"

section \<open>Vocabulary of the specification\<close>

text \<open>A nested list of shape \<open>d \<times> d \<times> d\<close>, and the one whose entries are \<open>F i j k\<close>.\<close>

definition shape3 :: "nat \<Rightarrow> 'x list list list \<Rightarrow> bool" where
  "shape3 d G \<longleftrightarrow> length G = d \<and> (\<forall>i<d. length (G ! i) = d \<and> (\<forall>j<d. length (G ! i ! j) = d))"

definition tensor :: "nat \<Rightarrow> (nat \<Rightarrow> nat \<Rightarrow> nat \<Rightarrow> 'x) \<Rightarrow> 'x list list list" where
  "tensor d F = map (\<lambda>i. map (\<lambda>j. map (\<lambda>k. F i j k) [0 ..< d]) [0 ..< d]) [0 ..< d]"

text \<open>
  The formula of the specification, section 4.1 step 4, in its words:
  \<open>\<Gamma>[i][j][k] = \<Sum>_{n=0}^{dims-1} (inverse_metric[i][n] / 2) \<cdot>
    (\<partial>metric[n][j]/\<partial>symbols[k] + \<partial>metric[n][k]/\<partial>symbols[j] - \<partial>metric[j][k]/\<partial>symbols[n])\<close>,
  where \<open>D a b c\<close> stands for \<open>\<partial>metric[a][b]/\<partial>symbols[c]\<close>.
\<close>

definition spec_formula ::
  "'b::field list list \<Rightarrow> (nat \<Rightarrow> nat \<Rightarrow> nat \<Rightarrow> 'b) \<Rightarrow> nat \<Rightarrow> nat \<Rightarrow> nat \<Rightarrow> nat \<Rightarrow> 'b" where
  "spec_formula inverse_metric D dims i j k =
     (\<Sum>n = 0 ..< dims. (inverse_metric ! i ! n / 2) * (D n j k + D n k j - D j k n))"

text \<open>The identity matrix of size \<open>d\<close>, as a nested list.\<close>

definition eye :: "nat \<Rightarrow> 'a::field list list" where
  "eye d = map (\<lambda>i. map (\<lambda>j. if i = j then 1 else 0) [0 ..< d]) [0 ..< d]"

section \<open>A kernel given by tables\<close>

text \<open>
  To run the engines on a concrete input, a kernel is needed. This one answers from
  two tables: the matrices it can invert with the outcome of each inversion, and the
  derivatives that are not zero. An expression is represented by its value at a sample
  point, so that the arithmetic is that of the rational numbers. A matrix that is not
  in the table is refused.
\<close>

definition table_kernel ::
  "('b list list \<times> (error + 'b list list)) list \<Rightarrow> (('b \<times> string) \<times> 'b) list
     \<Rightarrow> ('b, 'b::field, string) kernel" where
  "table_kernel inverses derivatives =
     \<lparr> Matrix = Inr,
       inv\<^sub>M = (\<lambda>m. case map_of inverses m of Some r \<Rightarrow> r | None \<Rightarrow> Inl KernelError),
       diff = (\<lambda>e x. Inr (case map_of derivatives (e, x) of Some d \<Rightarrow> d | None \<Rightarrow> 0)) \<rparr>"

text \<open>
  The spherical metric at the sample point \<open>r = 2\<close>, \<open>sin \<theta> = 3/5\<close>, \<open>cos \<theta> = 4/5\<close>:
  \<open>r\<^sup>2 = 4\<close> and \<open>r\<^sup>2 sin\<^sup>2 \<theta> = 36/25\<close>, with inverse \<open>diag(1, 1/4, 25/36)\<close>;
  \<open>\<partial>r\<^sup>2/\<partial>r = 2 r = 4\<close>, \<open>\<partial>(r\<^sup>2 sin\<^sup>2 \<theta>)/\<partial>r = 2 r sin\<^sup>2 \<theta> = 36/25\<close>,
  \<open>\<partial>(r\<^sup>2 sin\<^sup>2 \<theta>)/\<partial>\<theta> = 2 r\<^sup>2 sin \<theta> cos \<theta> = 96/25\<close>.
\<close>

definition sample_Symbol :: "string \<Rightarrow> rat" where
  "sample_Symbol x = (if x = ''r'' then 2 else 0)"

definition sample_sin :: "rat \<Rightarrow> rat" where
  "sample_sin x = 3 / 5"

definition sample_cos :: "rat \<Rightarrow> rat" where
  "sample_cos x = 4 / 5"

definition sample_kernel :: "(rat, rat, string) kernel" where
  "sample_kernel =
     table_kernel
       [([[1, 0, 0], [0, 4, 0], [0, 0, 36 / 25]], Inr [[1, 0, 0], [0, 1 / 4, 0], [0, 0, 25 / 36]])]
       [((4, ''r''), 4), ((36 / 25, ''r''), 36 / 25), ((36 / 25, ''theta''), 96 / 25)]"

text \<open>
  Constant metrics: the identity of size 2 and \<open>diag(2, 4)\<close> with their inverses, and
  the singular \<open>[[0, 0], [0, 1]]\<close>, whose inversion raises. Every derivative is zero.
\<close>

definition constant_kernel :: "(rat, rat, string) kernel" where
  "constant_kernel =
     table_kernel
       [([[1, 0], [0, 1]], Inr [[1, 0], [0, 1]]),
        ([[2, 0], [0, 4]], Inr [[1 / 2, 0], [0, 1 / 4]]),
        ([[0, 0], [0, 1]], Inl NonInvertibleMatrixError)]
       []"


text \<open>
  Two kernels of different expression types for the spherical metric at the sample
  point above. The canonical one computes with real numbers. The alternate one takes
  the caller's real entries and computes with rational numbers; its results come back
  through \<open>alternate_S\<close>, the embedding of the rationals into the reals.
\<close>

definition canonical_kernel :: "(real, real, string) kernel" where
  "canonical_kernel =
     table_kernel
       [([[1, 0, 0], [0, 4, 0], [0, 0, 36 / 25]], Inr [[1, 0, 0], [0, 1 / 4, 0], [0, 0, 25 / 36]])]
       [((4, ''r''), 4), ((36 / 25, ''r''), 36 / 25), ((36 / 25, ''theta''), 96 / 25)]"

definition alternate_kernel :: "(real, rat, string) kernel" where
  "alternate_kernel =
     \<lparr> Matrix = (\<lambda>m. if m = [[1, 0, 0], [0, 4, 0], [0, 0, 36 / 25]]
                     then Inr [[1, 0, 0], [0, 4, 0], [0, 0, 36 / 25]] else Inl KernelError),
       inv\<^sub>M = (\<lambda>m. if m = [[1, 0, 0], [0, 4, 0], [0, 0, 36 / 25]]
                   then Inr [[1, 0, 0], [0, 1 / 4, 0], [0, 0, 25 / 36]] else Inl KernelError),
       diff = (\<lambda>e x. Inr (if e = 4 \<and> x = ''r'' then 4
                          else if e = 36 / 25 \<and> x = ''r'' then 36 / 25
                          else if e = 36 / 25 \<and> x = ''theta'' then 96 / 25
                          else 0)) \<rparr>"

definition alternate_S :: "rat \<Rightarrow> error + real" where
  "alternate_S x = Inr (of_rat x)"

section \<open>The index enumeration\<close>

lemma index_i_small: 
  assumes "t < dims ^ 3" shows "index_i dims t = (t div dims) div dims"
proof -
  have "t < dims * dims ^ 2" using assms by (simp add: power3_eq_cube power2_eq_square)
  then have "t div dims ^ 2 < dims"
    by (rule less_mult_imp_div_less)
  then have "index_i dims t = t div dims ^ 2" by (simp add: index_i_def)
  also have "\<dots> = (t div dims) div dims"
    by (simp add: power2_eq_square div_mult2_eq)
  finally show ?thesis .
qed

lemma recompose:
  assumes "t < dims ^ 3"
  shows "index_i dims t * dims ^ 2 + index_j dims t * dims + index_k dims t = t"
proof -
  define q where "q = t div dims"
  have t: "q * dims + t mod dims = t" by (simp add: q_def)
  have q: "(q div dims) * dims + q mod dims = q" by simp
  have "index_i dims t * dims ^ 2 + index_j dims t * dims + index_k dims t
        = (q div dims) * (dims * dims) + (q mod dims) * dims + t mod dims"
    using assms by (simp add: index_i_small index_j_def index_k_def q_def power2_eq_square)
  also have "\<dots> = ((q div dims) * dims + q mod dims) * dims + t mod dims"
    by (simp only: add_mult_distrib mult.assoc)
  also have "\<dots> = t" by (simp only: q t)
  finally show ?thesis .
qed

lemma triple_inj: "inj_on (triple dims) {0 ..< dims ^ 3}"
proof (rule inj_onI)
  fix s t assume s: "s \<in> {0 ..< dims ^ 3}" and t: "t \<in> {0 ..< dims ^ 3}"
    and eq: "triple dims s = triple dims t"
  from eq have e: "index_i dims s = index_i dims t" "index_j dims s = index_j dims t"
    "index_k dims s = index_k dims t"
    by (simp_all add: triple_def)
  have "s = index_i dims s * dims ^ 2 + index_j dims s * dims + index_k dims s"
    using s by (simp only: recompose atLeastLessThan_iff)
  also have "\<dots> = index_i dims t * dims ^ 2 + index_j dims t * dims + index_k dims t"
    by (simp only: e)
  also have "\<dots> = t" using t by (simp only: recompose atLeastLessThan_iff)
  finally show "s = t" .
qed

lemma triple_of_linear:
  assumes "i < dims" "j < dims" "k < dims"
  shows "i * dims ^ 2 + j * dims + k < dims ^ 3"
    and "triple dims (i * dims ^ 2 + j * dims + k) = (i, j, k)"
proof -
  define q where "q = i * dims + j"
  have q_lt: "q < dims * dims"
  proof -
    have "q < i * dims + dims" using assms by (simp add: q_def)
    also have "\<dots> = Suc i * dims" by simp
    also have "\<dots> \<le> dims * dims" using assms(1) by (intro mult_le_mono1) simp
    finally show ?thesis .
  qed
  have t_eq: "i * dims ^ 2 + j * dims + k = q * dims + k"
    by (simp add: q_def power2_eq_square add_mult_distrib)
  have "q * dims + k < q * dims + dims" using assms by simp
  also have "\<dots> = Suc q * dims" by simp
  also have "\<dots> \<le> (dims * dims) * dims" using q_lt by (intro mult_le_mono1) simp
  finally show "i * dims ^ 2 + j * dims + k < dims ^ 3"
    by (simp only: t_eq power3_eq_cube)
  have k: "(q * dims + k) mod dims = k" using assms by simp
  have d1: "(q * dims + k) div dims = q" using assms by simp
  have j: "q mod dims = j" using assms by (simp add: q_def)
  have i: "q div dims = i" using assms by (simp add: q_def)
  have "(q * dims + k) div dims ^ 2 = ((q * dims + k) div dims) div dims"
    by (simp only: power2_eq_square div_mult2_eq)
  then have d2: "(q * dims + k) div dims ^ 2 = i" by (simp only: d1 i)
  show "triple dims (i * dims ^ 2 + j * dims + k) = (i, j, k)"
    unfolding t_eq triple_def index_i_def index_j_def index_k_def
    using k d1 j d2 assms by simp
qed

lemma triple_range:
  "triple dims ` {0 ..< dims ^ 3} = {0 ..< dims} \<times> {0 ..< dims} \<times> {0 ..< dims}"
proof (rule set_eqI)
  fix p :: "nat \<times> nat \<times> nat"
  obtain i j k where p: "p = (i, j, k)" by (cases p) auto
  show "p \<in> triple dims ` {0 ..< dims ^ 3} \<longleftrightarrow> p \<in> {0 ..< dims} \<times> {0 ..< dims} \<times> {0 ..< dims}"
  proof
    assume "p \<in> triple dims ` {0 ..< dims ^ 3}"
    then obtain t where t: "t < dims ^ 3" and pt: "p = triple dims t" by auto
    from t have "0 < dims" by (cases dims) auto
    then show "p \<in> {0 ..< dims} \<times> {0 ..< dims} \<times> {0 ..< dims}"
      using pt by (simp add: triple_def index_i_def index_j_def index_k_def)
  next
    assume "p \<in> {0 ..< dims} \<times> {0 ..< dims} \<times> {0 ..< dims}"
    then have ijk: "i < dims" "j < dims" "k < dims" using p by auto
    have "i * dims ^ 2 + j * dims + k \<in> {0 ..< dims ^ 3}"
      using triple_of_linear(1) [OF ijk] by simp
    moreover have "p = triple dims (i * dims ^ 2 + j * dims + k)"
      using triple_of_linear(2) [OF ijk] p by simp
    ultimately show "p \<in> triple dims ` {0 ..< dims ^ 3}" by (rule image_eqI [rotated])
  qed
qed

section \<open>The loops\<close>

lemma bindE_Inl [simp]: "bindE (Inl e) f = Inl e"
  by (simp add: bindE_def)

lemma bindE_Inr [simp]: "bindE (Inr v) f = f v"
  by (simp add: bindE_def)

lemma bindE_eq_Inr: "bindE m f = Inr y \<longleftrightarrow> (\<exists>v. m = Inr v \<and> f v = Inr y)"
  by (cases m) simp_all

lemma getitem_eq_Inr: "getitem xs n = Inr x \<longleftrightarrow> n < length xs \<and> x = xs ! n"
  by (auto simp: getitem_def)

lemma getitem2_eq_Inr:
  "getitem2 m a b = Inr x \<longleftrightarrow> a < length m \<and> b < length (m ! a) \<and> x = m ! a ! b"
  by (auto simp: getitem2_def bindE_eq_Inr getitem_eq_Inr)

lemma getitem_in [simp]: "n < length xs \<Longrightarrow> getitem xs n = Inr (xs ! n)"
  by (simp add: getitem_def)

lemma getitem2_in: "a < length m \<Longrightarrow> b < length (m ! a) \<Longrightarrow> getitem2 m a b = Inr (m ! a ! b)"
  by (simp add: getitem2_def)

lemma shape3_replicate: "shape3 d (replicate d (replicate d (replicate d x)))"
  by (simp add: shape3_def)

lemma setitem3_in:
  assumes "shape3 d G" "i < d" "j < d" "k < d"
  shows "setitem3 G i j k v = Inr (G[i := (G ! i)[j := (G ! i ! j)[k := v]]])"
  using assms by (simp add: setitem3_def shape3_def)

lemma shape3_update:
  assumes "shape3 d G"
  shows "shape3 d (G[i := (G ! i)[j := (G ! i ! j)[k := v]]])"
  unfolding shape3_def
proof (intro conjI allI impI)
  show "length (G[i := (G ! i)[j := (G ! i ! j)[k := v]]]) = d"
    using assms by (simp add: shape3_def)
next
  fix a assume a: "a < d"
  show "length (G[i := (G ! i)[j := (G ! i ! j)[k := v]]] ! a) = d"
    using assms a by (cases "a = i") (simp_all add: shape3_def)
  fix b assume b: "b < d"
  show "length (G[i := (G ! i)[j := (G ! i ! j)[k := v]]] ! a ! b) = d"
    using assms a b by (cases "a = i"; cases "b = j") (simp_all add: shape3_def)
qed

lemma nth3_update:
  assumes "shape3 d G" "i < d" "j < d" "k < d" "i' < d" "j' < d" "k' < d"
  shows "G[i := (G ! i)[j := (G ! i ! j)[k := v]]] ! i' ! j' ! k'
         = (if (i', j', k') = (i, j, k) then v else G ! i' ! j' ! k')"
  using assms by (auto simp: shape3_def nth_list_update)

lemma index_lt: "0 < d \<Longrightarrow> index_i d t < d \<and> index_j d t < d \<and> index_k d t < d"
  by (simp add: index_i_def index_j_def index_k_def)

lemma outer_loop_Inr:
  assumes "outer_loop d ent ts cl = Inr G" "shape3 d cl" "0 < d"
  shows "shape3 d G \<and>
         (\<forall>i<d. \<forall>j<d. \<forall>k<d.
            if (i, j, k) \<in> triple d ` set ts
            then (\<exists>v. ent i j k = Inr v \<and> G ! i ! j ! k = Expr v)
            else G ! i ! j ! k = cl ! i ! j ! k)"
  using assms
proof (induction ts arbitrary: cl)
  case Nil
  then show ?case by simp
next
  case (Cons t ts)
  let ?i = "index_i d t" and ?j = "index_j d t" and ?k = "index_k d t"
  have lt: "?i < d" "?j < d" "?k < d" using index_lt [OF \<open>0 < d\<close>] by simp_all
  from Cons.prems(1) obtain v where v: "ent ?i ?j ?k = Inr v"
    and rest: "bindE (setitem3 cl ?i ?j ?k (Expr v)) (outer_loop d ent ts) = Inr G"
    by (auto simp: Let_def bindE_eq_Inr)
  let ?cl = "cl[?i := (cl ! ?i)[?j := (cl ! ?i ! ?j)[?k := Expr v]]]"
  have run: "outer_loop d ent ts ?cl = Inr G"
    using rest setitem3_in [OF Cons.prems(2) lt] by simp
  have sh: "shape3 d ?cl" using Cons.prems(2) by (rule shape3_update)
  note IH = Cons.IH [OF run sh \<open>0 < d\<close>]
  show ?case
  proof (intro conjI allI impI)
    show "shape3 d G" using IH by simp
  next
    fix i j k assume ijk: "i < d" "j < d" "k < d"
    have upd: "?cl ! i ! j ! k = (if (i, j, k) = (?i, ?j, ?k) then Expr v else cl ! i ! j ! k)"
      using nth3_update [OF Cons.prems(2) lt ijk] .
    from IH ijk have ih: "if (i, j, k) \<in> triple d ` set ts
            then (\<exists>v. ent i j k = Inr v \<and> G ! i ! j ! k = Expr v)
            else G ! i ! j ! k = ?cl ! i ! j ! k" by blast
    show "if (i, j, k) \<in> triple d ` set (t # ts)
            then (\<exists>v. ent i j k = Inr v \<and> G ! i ! j ! k = Expr v)
            else G ! i ! j ! k = cl ! i ! j ! k"
    proof (cases "(i, j, k) \<in> triple d ` set ts")
      case True
      then show ?thesis using ih by simp
    next
      case False
      then have g: "G ! i ! j ! k = ?cl ! i ! j ! k" using ih by simp
      show ?thesis
      proof (cases "(i, j, k) = triple d t")
        case True
        then have "(i, j, k) = (?i, ?j, ?k)" by (simp add: triple_def)
        then show ?thesis using g upd v True by auto
      next
        case neq: False
        then have "(i, j, k) \<noteq> (?i, ?j, ?k)" by (simp add: triple_def)
        then show ?thesis using g upd False neq by auto
      qed
    qed
  qed
qed

lemma outer_loop_total:
  assumes "shape3 d cl" "0 < d" "\<forall>i<d. \<forall>j<d. \<forall>k<d. \<exists>v. ent i j k = Inr v"
  shows "\<exists>G. outer_loop d ent ts cl = Inr G"
  using assms(1)
proof (induction ts arbitrary: cl)
  case Nil
  then show ?case by simp
next
  case (Cons t ts)
  let ?i = "index_i d t" and ?j = "index_j d t" and ?k = "index_k d t"
  have lt: "?i < d" "?j < d" "?k < d" using index_lt [OF \<open>0 < d\<close>] by simp_all
  then obtain v where v: "ent ?i ?j ?k = Inr v" using assms(3) by blast
  let ?cl = "cl[?i := (cl ! ?i)[?j := (cl ! ?i ! ?j)[?k := Expr v]]]"
  have "shape3 d ?cl" using Cons.prems by (rule shape3_update)
  from Cons.IH [OF this] obtain G where "outer_loop d ent ts ?cl = Inr G" ..
  then show ?case using v setitem3_in [OF Cons.prems lt] by (simp add: Let_def)
qed

lemma inner_loop_Inr:
  "inner_loop f ns temp = Inr v \<Longrightarrow>
     (\<forall>n\<in>set ns. \<exists>x. f n = Inr x) \<and> v = temp + sum_list (map (\<lambda>n. projr (f n)) ns)"
proof (induction ns arbitrary: temp)
  case Nil
  then show ?case by simp
next
  case (Cons n ns)
  from Cons.prems obtain x where x: "f n = Inr x" and r: "inner_loop f ns (temp + x) = Inr v"
    by (auto simp: bindE_eq_Inr)
  from Cons.IH [OF r] x show ?case by (simp add: add.assoc)
qed

lemma inner_loop_total:
  "\<forall>n\<in>set ns. f n = Inr (g n) \<Longrightarrow> inner_loop f ns temp = Inr (temp + sum_list (map g ns))"
  by (induction ns arbitrary: temp) (simp_all add: add.assoc)


lemma shape3_eq_tensor:
  assumes "shape3 d G" "\<forall>i<d. \<forall>j<d. \<forall>k<d. G ! i ! j ! k = F i j k"
  shows "G = tensor d F"
proof (rule nth_equalityI)
  show "length G = length (tensor d F)" using assms(1) by (simp add: shape3_def tensor_def)
next
  fix i assume "i < length G"
  then have i: "i < d" using assms(1) by (simp add: shape3_def)
  show "G ! i = tensor d F ! i"
  proof (rule nth_equalityI)
    show "length (G ! i) = length (tensor d F ! i)"
      using assms(1) i by (simp add: shape3_def tensor_def)
  next
    fix j assume "j < length (G ! i)"
    then have j: "j < d" using assms(1) i by (simp add: shape3_def)
    show "G ! i ! j = tensor d F ! i ! j"
    proof (rule nth_equalityI)
      show "length (G ! i ! j) = length (tensor d F ! i ! j)"
        using assms(1) i j by (simp add: shape3_def tensor_def)
    next
      fix k assume "k < length (G ! i ! j)"
      then have k: "k < d" using assms(1) i j by (simp add: shape3_def)
      show "G ! i ! j ! k = tensor d F ! i ! j ! k"
        using assms(2) i j k by (simp add: tensor_def)
    qed
  qed
qed

lemma summand_eq_Inr:
  "summand kern P M syms i j k n = Inr x \<longleftrightarrow>
     i < length P \<and> n < length (P ! i) \<and>
     n < length M \<and> j < length (M ! n) \<and> k < length syms \<and>
     k < length (M ! n) \<and> j < length syms \<and>
     j < length M \<and> k < length (M ! j) \<and> n < length syms \<and>
     (\<exists>d1 d2 d3. diff kern (M ! n ! j) (syms ! k) = Inr d1 \<and>
                 diff kern (M ! n ! k) (syms ! j) = Inr d2 \<and>
                 diff kern (M ! j ! k) (syms ! n) = Inr d3 \<and>
                 x = (P ! i ! n / 2) * (d1 + d2 - d3))"
  by (auto simp: summand_def bindE_eq_Inr getitem_eq_Inr getitem2_eq_Inr)

lemma entry_Inr:
  assumes "entry kern conv P M syms i j k = Inr v"
  shows "(\<forall>n<length syms. \<exists>x. summand kern P M syms i j k n = Inr x) \<and>
         conv (\<Sum>n = 0 ..< length syms. projr (summand kern P M syms i j k n)) = Inr v"
proof -
  from assms obtain temp
    where t: "inner_loop (summand kern P M syms i j k) [0 ..< length syms] 0 = Inr temp"
      and c: "conv temp = Inr v"
    by (auto simp: entry_def bindE_eq_Inr)
  from inner_loop_Inr [OF t] c show ?thesis
    by (simp add: interv_sum_list_conv_sum_set_nat)
qed

lemma entry_total:
  assumes "\<forall>n<length syms. summand kern P M syms i j k n = Inr (g n)"
  shows "entry kern conv P M syms i j k = conv (\<Sum>n = 0 ..< length syms. g n)"
proof -
  have "inner_loop (summand kern P M syms i j k) [0 ..< length syms] 0
        = Inr (0 + sum_list (map g [0 ..< length syms]))"
    using assms by (intro inner_loop_total) simp
  then show ?thesis by (simp add: entry_def interv_sum_list_conv_sum_set_nat)
qed

lemma counterlist_covers:
  assumes "i < d" "j < d" "k < d"
  shows "(i, j, k) \<in> triple d ` set (counterlist d)"
  using assms triple_range [of d] by (simp add: counterlist_def)

lemma christoffels_Inr:
  assumes "christoffels kern conv M syms = Inr G"
  shows "\<exists>mat P. Matrix kern M = Inr mat \<and> inv\<^sub>M kern mat = Inr P \<and>
           shape3 (length syms) G \<and>
           (\<forall>i<length syms. \<forall>j<length syms. \<forall>k<length syms.
              \<exists>v. entry kern conv P M syms i j k = Inr v \<and> G ! i ! j ! k = Expr v)"
proof -
  let ?d = "length syms"
  let ?cl = "replicate ?d (replicate ?d (replicate ?d IntZero))"
  from assms obtain mat P where mat: "Matrix kern M = Inr mat" and P: "inv\<^sub>M kern mat = Inr P"
    and run: "outer_loop ?d (entry kern conv P M syms) (counterlist ?d) ?cl = Inr G"
    by (auto simp: christoffels_def Let_def bindE_eq_Inr)
  show ?thesis
  proof (cases "?d = 0")
    case True
    then have "G = []" using run by (simp add: counterlist_def)
    then show ?thesis using mat P True by (simp add: shape3_def)
  next
    case False
    then have pos: "0 < ?d" by simp
    from outer_loop_Inr [OF run shape3_replicate pos] counterlist_covers [of _ ?d]
    show ?thesis using mat P by auto
  qed
qed

lemma christoffels_total:
  assumes "Matrix kern M = Inr mat" "inv\<^sub>M kern mat = Inr P"
    and "\<forall>i<length syms. \<forall>j<length syms. \<forall>k<length syms.
           entry kern conv P M syms i j k = Inr (F i j k)"
  shows "christoffels kern conv M syms = Inr (tensor (length syms) (\<lambda>i j k. Expr (F i j k)))"
proof -
  let ?d = "length syms"
  let ?cl = "replicate ?d (replicate ?d (replicate ?d IntZero))"
  have unf: "christoffels kern conv M syms
             = outer_loop ?d (entry kern conv P M syms) (counterlist ?d) ?cl"
    using assms(1,2) by (simp add: christoffels_def Let_def)
  show ?thesis
  proof (cases "?d = 0")
    case True
    then show ?thesis using unf by (simp add: counterlist_def tensor_def)
  next
    case False
    then have pos: "0 < ?d" by simp
    have "\<forall>i<?d. \<forall>j<?d. \<forall>k<?d. \<exists>v. entry kern conv P M syms i j k = Inr v"
      using assms(3) by blast
    from outer_loop_total [OF shape3_replicate pos this]
    obtain G where G: "christoffels kern conv M syms = Inr G" unfolding unf by blast
    from christoffels_Inr [OF G] assms
    have "shape3 ?d G" and "\<forall>i<?d. \<forall>j<?d. \<forall>k<?d. G ! i ! j ! k = Expr (F i j k)"
      by auto
    then have "G = tensor ?d (\<lambda>i j k. Expr (F i j k))" by (rule shape3_eq_tensor)
    then show ?thesis using G by simp
  qed
qed

section \<open>The claims about the enumeration and the timer\<close>

text \<open>
  C8. The triples \<open>(i, j, k)\<close> computed from \<open>t = 0, ..., dims^3 - 1\<close> by
  \<open>k = t mod dims\<close>, \<open>j = (t div dims) mod dims\<close>, \<open>i = (t div dims^2) mod dims\<close> are
  pairwise different (no duplication) and are exactly the triples with every
  coordinate in \<open>[0, dims)\<close> (no omission).
\<close>

theorem enumeration_exactly_once:
  "distinct (map (triple dims) (counterlist dims)) \<and>
   set (map (triple dims) (counterlist dims)) = {0 ..< dims} \<times> {0 ..< dims} \<times> {0 ..< dims}"
  using triple_inj [of dims] triple_range [of dims]
  by (simp add: counterlist_def distinct_map)

text \<open>
  C9. The wrapped call gives exactly the outcome of the function itself, called with the
  same arguments in the world left by the first clock reading: the same value when it
  returns, the same exception when it raises.
\<close>

theorem timeit_transparent:
  "fst (timeit str name func args w) = fst (func args (snd (time_time w)))"
  by (simp add: timeit_def function_timer_def Let_def split: prod.splits sum.splits)

section \<open>The claims about the engines\<close>

lemma nth_tensor: "i < d \<Longrightarrow> j < d \<Longrightarrow> k < d \<Longrightarrow> tensor d F ! i ! j ! k = F i j k"
  by (simp add: tensor_def)

lemma entry_valid:
  assumes M: "length M = length syms" "\<forall>n<length syms. length (M ! n) = length syms"
    and P: "length P = length syms" "\<forall>n<length syms. length (P ! n) = length syms"
    and D: "\<forall>a<length syms. \<forall>b<length syms. \<forall>c<length syms.
              diff kern (M ! a ! b) (syms ! c) = Inr (D a b c)"
    and ijk: "i < length syms" "j < length syms" "k < length syms"
  shows "entry kern conv P M syms i j k = conv (spec_formula P D (length syms) i j k)"
proof -
  have "\<forall>n<length syms. summand kern P M syms i j k n
          = Inr ((P ! i ! n / 2) * (D n j k + D n k j - D j k n))"
    using M P D ijk by (simp add: summand_eq_Inr)
  from entry_total [OF this] show ?thesis by (simp add: spec_formula_def)
qed

text \<open>
  C3. On a valid input of the reference engine (as many symbols as the metric has rows
  and columns, a metric the kernel inverts, to a matrix of the same shape, and
  derivatives \<open>D a b c\<close> of \<open>metric[a][b]\<close> by \<open>symbols[c]\<close> that the kernel computes),
  the engine returns a tensor, and its entry \<open>(i, j, k)\<close> is the sum over \<open>n\<close> of
  \<open>(inverse_metric[i][n] / 2) * (D n j k + D n k j - D j k n)\<close>.
\<close>

theorem reference_entry_formula:
  fixes sympy :: "('a::field, 'a, 's) kernel"
  assumes "length list2d = length syms"
    and "\<forall>n<length syms. length (list2d ! n) = length syms"
    and "Matrix sympy list2d = Inr mat"
    and "inv\<^sub>M sympy mat = Inr inverse_metric"
    and "length inverse_metric = length syms"
    and "\<forall>n<length syms. length (inverse_metric ! n) = length syms"
    and "\<forall>a<length syms. \<forall>b<length syms. \<forall>c<length syms.
           diff sympy (list2d ! a ! b) (syms ! c) = Inr (D a b c)"
  shows "\<exists>\<Gamma>. christoffels_reference sympy list2d syms = Inr \<Gamma> \<and>
           (\<forall>i<length syms. \<forall>j<length syms. \<forall>k<length syms.
              \<Gamma> ! i ! j ! k = Expr (spec_formula inverse_metric D (length syms) i j k))"
proof -
  let ?F = "spec_formula inverse_metric D (length syms)"
  have "\<forall>i<length syms. \<forall>j<length syms. \<forall>k<length syms.
          entry sympy Inr inverse_metric list2d syms i j k = Inr (?F i j k)"
    using entry_valid [OF assms(1,2,5,6,7)] by blast
  from christoffels_total [OF assms(3,4) this]
  have "christoffels_reference sympy list2d syms
          = Inr (tensor (length syms) (\<lambda>i j k. Expr (?F i j k)))"
    by (simp add: christoffels_reference_def)
  then show ?thesis by (simp add: nth_tensor)
qed


lemma main_metric_eval:
  "main_metric Symbol sn =
     [[1, 0, 0],
      [0, (Symbol ''r'') ^ 2, 0],
      [0, 0, (Symbol ''r'') ^ 2 * (sn (Symbol ''theta'')) ^ 2]]"
  by (simp add: main_metric_def main_syms_def Let_def eval_nat_numeral)

lemma sample_metric_eval:
  "main_metric sample_Symbol sample_sin = [[1, 0, 0], [0, 4, 0], [0, 0, 36 / 25]]"
  by (simp add: main_metric_eval sample_Symbol_def sample_sin_def power2_eq_square)

theorem reference_entry_formula_witness:
  "\<exists>\<Gamma>. christoffels_reference sample_kernel (main_metric sample_Symbol sample_sin) main_syms = Inr \<Gamma> \<and>
       \<Gamma> ! 1 ! 2 ! 2 = Expr (- (12 / 25)) \<and> \<Gamma> ! 2 ! 1 ! 2 = Expr (4 / 3)"
proof -
  let ?M = "main_metric sample_Symbol sample_sin"
  let ?P = "[[1, 0, 0], [0, 1 / 4, 0], [0, 0, 25 / 36 :: rat]]"
  let ?D = "\<lambda>a b c. projr (diff sample_kernel (?M ! a ! b) (main_syms ! c))"
  have 1: "length ?M = length main_syms"
    by (simp add: sample_metric_eval main_syms_def)
  have 2: "\<forall>n<length main_syms. length (?M ! n) = length main_syms"
    by (simp add: sample_metric_eval main_syms_def All_less_Suc)
  have 3: "Matrix sample_kernel ?M = Inr ?M"
    by (simp add: sample_kernel_def table_kernel_def)
  have 4: "inv\<^sub>M sample_kernel ?M = Inr ?P"
    by (simp add: sample_kernel_def table_kernel_def sample_metric_eval)
  have 5: "length ?P = length main_syms"
    by (simp add: main_syms_def)
  have 6: "\<forall>n<length main_syms. length (?P ! n) = length main_syms"
    by (simp add: main_syms_def All_less_Suc)
  have 7: "\<forall>a<length main_syms. \<forall>b<length main_syms. \<forall>c<length main_syms.
             diff sample_kernel (?M ! a ! b) (main_syms ! c) = Inr (?D a b c)"
    by (simp add: sample_kernel_def table_kernel_def)
  from reference_entry_formula [OF 1 2 3 4 5 6 7]
  obtain \<Gamma> where ret: "christoffels_reference sample_kernel ?M main_syms = Inr \<Gamma>"
    and ent: "\<forall>i<length main_syms. \<forall>j<length main_syms. \<forall>k<length main_syms.
                \<Gamma> ! i ! j ! k = Expr (spec_formula ?P ?D (length main_syms) i j k)"
    by blast
  have len: "length main_syms = 3" by (simp add: main_syms_def)
  have "\<Gamma> ! 1 ! 2 ! 2 = Expr (spec_formula ?P ?D 3 1 2 2)"
    using ent len by simp
  moreover have "spec_formula ?P ?D 3 1 2 2 = - (12 / 25)"
    by (simp add: spec_formula_def sample_metric_eval main_syms_def sample_kernel_def
        table_kernel_def eval_nat_numeral)
  moreover have "\<Gamma> ! 2 ! 1 ! 2 = Expr (spec_formula ?P ?D 3 2 1 2)"
    using ent len by simp
  moreover have "spec_formula ?P ?D 3 2 1 2 = 4 / 3"
    by (simp add: spec_formula_def sample_metric_eval main_syms_def sample_kernel_def
        table_kernel_def eval_nat_numeral)
  ultimately show ?thesis using ret by simp
qed

text \<open>
  C10. Whenever an engine returns a tensor, the tensor has \<open>len(syms)\<close> planes of
  \<open>len(syms)\<close> rows of \<open>len(syms)\<close> entries, whatever the size of the metric, and no
  entry is the integer zero of the allocation: the loop has stored an expression in
  each.
\<close>

theorem returned_tensor_shape:
  fixes sympy :: "('a::field, 'a, 's) kernel" and symengine :: "('a, 'b::field, 's) kernel"
  assumes "christoffels_reference sympy list2d syms = Inr \<Gamma> \<or>
           christoffels_symengine symengine S list2d syms = Inr \<Gamma>"
  shows "length \<Gamma> = length syms \<and>
         (\<forall>i<length syms. length (\<Gamma> ! i) = length syms \<and>
            (\<forall>j<length syms. length (\<Gamma> ! i ! j) = length syms \<and>
               (\<forall>k<length syms. \<Gamma> ! i ! j ! k \<noteq> IntZero)))"
proof -
  have "shape3 (length syms) \<Gamma> \<and>
        (\<forall>i<length syms. \<forall>j<length syms. \<forall>k<length syms. \<exists>v. \<Gamma> ! i ! j ! k = Expr v)"
    using assms
  proof
    assume "christoffels_reference sympy list2d syms = Inr \<Gamma>"
    then have "christoffels sympy Inr list2d syms = Inr \<Gamma>"
      by (simp add: christoffels_reference_def)
    from christoffels_Inr [OF this] show ?thesis by blast
  next
    assume "christoffels_symengine symengine S list2d syms = Inr \<Gamma>"
    then have "christoffels symengine S list2d syms = Inr \<Gamma>"
      by (simp add: christoffels_symengine_def)
    from christoffels_Inr [OF this] show ?thesis by blast
  qed
  then show ?thesis by (fastforce simp: shape3_def)
qed

theorem returned_tensor_shape_witness:
  "christoffels_reference constant_kernel [[1, 0], [0, 1]] [''x''] = Inr [[[Expr 0]]] \<and>
   length [[[Expr (0::rat)]]] = length [''x''] \<and>
   length ([[[Expr (0::rat)]]] ! 0) = length [''x''] \<and>
   length ([[[Expr (0::rat)]]] ! 0 ! 0) = length [''x''] \<and>
   [[[Expr (0::rat)]]] ! 0 ! 0 ! 0 \<noteq> IntZero"
proof -
  have "christoffels_reference constant_kernel [[1, 0], [0, 1]] [''x''] = Inr [[[Expr 0]]]"
    by code_simp
  then show ?thesis
    using returned_tensor_shape [of constant_kernel "[[1, 0], [0, 1]]" "[''x'']" "[[[Expr 0]]]"]
    by simp
qed

lemma christoffels_too_many_symbols:
  assumes "length M < length syms"
  shows "\<exists>e. christoffels kern conv M syms = Inl e"
proof (cases "christoffels kern conv M syms")
  case (Inl e)
  then show ?thesis by blast
next
  case (Inr G)
  have pos: "0 < length syms" using assms by (cases syms) simp_all
  from christoffels_Inr [OF Inr] pos obtain P v where "entry kern conv P M syms 0 0 0 = Inr v"
    by blast
  from entry_Inr [OF this] assms
  obtain x where "summand kern P M syms 0 0 0 (length M) = Inr x" by blast
  then have False by (simp add: summand_eq_Inr)
  then show ?thesis ..
qed

lemma bindE_eq_Inl: "bindE m f = Inl e \<longleftrightarrow> m = Inl e \<or> (\<exists>v. m = Inr v \<and> f v = Inl e)"
  by (cases m) simp_all

lemma getitem_Inl: "getitem xs n = Inl e \<Longrightarrow> e = IndexError"
  by (simp add: getitem_def split: if_splits)

lemma getitem2_Inl: "getitem2 m a b = Inl e \<Longrightarrow> e = IndexError"
  by (auto simp: getitem2_def bindE_eq_Inl dest: getitem_Inl)

lemma summand_Inl:
  assumes "\<forall>a x. \<exists>d. diff kern a x = Inr d" and "summand kern P M syms i j k n = Inl e"
  shows "e = IndexError"
proof -
  have no: "diff kern a x \<noteq> Inl e'" for a x e'
    using assms(1) by (metis Inl_Inr_False)
  from assms(2) show ?thesis
    unfolding summand_def bindE_eq_Inl
    by (elim disjE exE conjE) (simp_all add: getitem_Inl getitem2_Inl no)
qed

lemma inner_loop_Inl:
  assumes "\<And>n e. f n = Inl e \<Longrightarrow> e = IndexError"
  shows "inner_loop f ns temp = Inl e \<Longrightarrow> e = IndexError"
proof (induction ns arbitrary: temp)
  case Nil
  then show ?case by simp
next
  case (Cons n ns)
  from Cons.prems show ?case
    unfolding inner_loop.simps bindE_eq_Inl
    using assms Cons.IH by blast
qed

lemma christoffels_too_many_symbols_IndexError:
  assumes "length M < length syms"
    and "Matrix kern M = Inr mat" and "inv\<^sub>M kern mat = Inr P"
    and "\<forall>a x. \<exists>d. diff kern a x = Inr d"
  shows "christoffels kern conv M syms = Inl IndexError"
proof -
  let ?d = "length syms"
  let ?f = "summand kern P M syms 0 0 0"
  have pos: "0 < ?d" using assms(1) by (cases syms) simp_all
  have "inner_loop ?f [0 ..< ?d] 0 \<noteq> Inr temp" for temp
  proof
    assume "inner_loop ?f [0 ..< ?d] 0 = Inr temp"
    from inner_loop_Inr [OF this] have "\<forall>n\<in>set [0 ..< ?d]. \<exists>x. ?f n = Inr x" ..
    moreover have "length M \<in> set [0 ..< ?d]" using assms(1) by simp
    ultimately obtain x where "?f (length M) = Inr x" by blast
    then show False by (simp add: summand_eq_Inr)
  qed
  then obtain e where e: "inner_loop ?f [0 ..< ?d] 0 = Inl e"
    by (cases "inner_loop ?f [0 ..< ?d] 0") auto
  have "e = IndexError"
    using summand_Inl [OF assms(4)] e by (rule inner_loop_Inl)
  with e have ent: "entry kern conv P M syms 0 0 0 = Inl IndexError"
    by (simp add: entry_def)
  have "0 < ?d ^ 3" using pos by simp
  then have cl: "counterlist ?d = 0 # [1 ..< ?d ^ 3]"
    by (simp add: counterlist_def upt_conv_Cons)
  have idx: "index_i ?d 0 = 0" "index_j ?d 0 = 0" "index_k ?d 0 = 0"
    by (simp_all add: index_i_def index_j_def index_k_def)
  show ?thesis
    using assms(2,3) ent
    by (simp add: christoffels_def Let_def cl idx del: upt_Suc)
qed

text \<open>
  C6, as the code has it. Neither engine compares the number of symbols with the size
  of the metric, and there is no shape-mismatch error. With more symbols than the metric
  has rows, the call raises and returns no tensor; when construction, inversion and
  differentiation themselves do not raise, the error is the IndexError of the subscript
  \<open>mat_inv[i, n]\<close> or \<open>list2d[n]\<close>, out of range in the first pass of the loop, and so
  after the inversion.
\<close>

theorem too_many_symbols_raises:
  fixes sympy :: "('a::field, 'a, 's) kernel" and symengine :: "('a, 'b::field, 's) kernel"
  assumes "length list2d < length syms"
  shows "(\<exists>e. christoffels_reference sympy list2d syms = Inl e) \<and>
         (\<exists>e. christoffels_symengine symengine S list2d syms = Inl e) \<and>
         ((\<exists>mat P. Matrix sympy list2d = Inr mat \<and> inv\<^sub>M sympy mat = Inr P) \<and>
          (\<forall>a x. \<exists>d. diff sympy a x = Inr d)
            \<longrightarrow> christoffels_reference sympy list2d syms = Inl IndexError) \<and>
         ((\<exists>mat P. Matrix symengine list2d = Inr mat \<and> inv\<^sub>M symengine mat = Inr P) \<and>
          (\<forall>a x. \<exists>d. diff symengine a x = Inr d)
            \<longrightarrow> christoffels_symengine symengine S list2d syms = Inl IndexError)"
proof (intro conjI impI)
  show "\<exists>e. christoffels_reference sympy list2d syms = Inl e"
    using christoffels_too_many_symbols [OF assms, of sympy Inr]
    by (simp add: christoffels_reference_def)
  show "\<exists>e. christoffels_symengine symengine S list2d syms = Inl e"
    using christoffels_too_many_symbols [OF assms, of symengine S]
    by (simp add: christoffels_symengine_def)
next
  assume "(\<exists>mat P. Matrix sympy list2d = Inr mat \<and> inv\<^sub>M sympy mat = Inr P) \<and>
          (\<forall>a x. \<exists>d. diff sympy a x = Inr d)"
  then obtain mat P where "Matrix sympy list2d = Inr mat" "inv\<^sub>M sympy mat = Inr P"
    and "\<forall>a x. \<exists>d. diff sympy a x = Inr d"
    by (elim conjE exE)
  from christoffels_too_many_symbols_IndexError [OF assms this]
  show "christoffels_reference sympy list2d syms = Inl IndexError"
    by (simp add: christoffels_reference_def)
next
  assume "(\<exists>mat P. Matrix symengine list2d = Inr mat \<and> inv\<^sub>M symengine mat = Inr P) \<and>
          (\<forall>a x. \<exists>d. diff symengine a x = Inr d)"
  then obtain mat P where "Matrix symengine list2d = Inr mat" "inv\<^sub>M symengine mat = Inr P"
    and "\<forall>a x. \<exists>d. diff symengine a x = Inr d"
    by (elim conjE exE)
  from christoffels_too_many_symbols_IndexError [OF assms this]
  show "christoffels_symengine symengine S list2d syms = Inl IndexError"
    by (simp add: christoffels_symengine_def)
qed

theorem too_many_symbols_raises_witness:
  "christoffels_reference constant_kernel [[1, 0], [0, 1]] [''x'', ''y'', ''z''] = Inl IndexError \<and>
   christoffels_symengine constant_kernel Inr [[1, 0], [0, 1]] [''x'', ''y'', ''z''] = Inl IndexError"
proof -
  let ?M = "[[1, 0], [0, 1 :: rat]]" and ?syms = "[''x'', ''y'', ''z'']"
  have lt: "length ?M < length ?syms" by simp
  have ok: "(\<exists>mat P. Matrix constant_kernel ?M = Inr mat \<and> inv\<^sub>M constant_kernel mat = Inr P) \<and>
            (\<forall>a x. \<exists>d. diff constant_kernel a x = Inr d)"
    by (simp add: constant_kernel_def table_kernel_def)
  note inst = too_many_symbols_raises [OF lt, of constant_kernel constant_kernel Inr]
  have "christoffels_reference constant_kernel ?M ?syms = Inl IndexError"
    using inst [THEN conjunct2, THEN conjunct2, THEN conjunct1] ok by (rule mp)
  moreover have "christoffels_symengine constant_kernel Inr ?M ?syms = Inl IndexError"
    using inst [THEN conjunct2, THEN conjunct2, THEN conjunct2] ok by (rule mp)
  ultimately show ?thesis by (rule conjI)
qed

text \<open>
  With fewer symbols than the metric has rows nothing raises: for the identity of size
  2 and one symbol both engines return a tensor of one entry.
\<close>

theorem no_shape_check_counterexample:
  "length [''x''] \<noteq> length [[1, 0], [0, 1::rat]] \<and>
   christoffels_reference constant_kernel [[1, 0], [0, 1]] [''x''] = Inr [[[Expr 0]]] \<and>
   christoffels_symengine constant_kernel Inr [[1, 0], [0, 1]] [''x''] = Inr [[[Expr 0]]]"
  by code_simp

lemma christoffels_entry:
  assumes "christoffels kern conv M syms = Inr G"
  obtains mat P where "Matrix kern M = Inr mat" and "inv\<^sub>M kern mat = Inr P"
    and "\<And>i j k. i < length syms \<Longrightarrow> j < length syms \<Longrightarrow> k < length syms \<Longrightarrow>
           \<exists>v. entry kern conv P M syms i j k = Inr v \<and> G ! i ! j ! k = Expr v"
proof -
  from christoffels_Inr [OF assms] obtain mat P
    where "Matrix kern M = Inr mat" and "inv\<^sub>M kern mat = Inr P"
      and "\<forall>i<length syms. \<forall>j<length syms. \<forall>k<length syms.
              \<exists>v. entry kern conv P M syms i j k = Inr v \<and> G ! i ! j ! k = Expr v"
    by auto
  then show ?thesis by (intro that [of mat P]) simp_all
qed

lemma summand_parts:
  assumes "summand kern P M syms i j k n = Inr x"
  obtains d1 d2 d3 where "diff kern (M ! n ! j) (syms ! k) = Inr d1"
    and "diff kern (M ! n ! k) (syms ! j) = Inr d2"
    and "diff kern (M ! j ! k) (syms ! n) = Inr d3"
    and "x = (P ! i ! n / 2) * (d1 + d2 - d3)"
  using assms unfolding summand_eq_Inr by blast

lemma sum_upto_cong:
  assumes "\<And>n. n < d \<Longrightarrow> f n = g n"
  shows "(\<Sum>n = 0 ..< d. f n) = (\<Sum>n = 0 ..< (d::nat). g n)"
  using assms by (intro sum.cong) simp_all

lemma christoffels_symmetric_generic:
  fixes kern :: "('a, 'b::field, 's) kernel"
  assumes ret: "christoffels kern conv M syms = Inr G"
    and sym: "\<forall>a<length syms. \<forall>b<length syms. M ! a ! b = M ! b ! a"
    and ijk: "i < length syms" "j < length syms" "k < length syms"
  shows "G ! i ! j ! k = G ! i ! k ! j"
proof -
  let ?d = "length syms"
  from ret obtain mat P
    where "Matrix kern M = Inr mat" and "inv\<^sub>M kern mat = Inr P"
      and ent: "\<And>i j k. i < ?d \<Longrightarrow> j < ?d \<Longrightarrow> k < ?d \<Longrightarrow>
           \<exists>v. entry kern conv P M syms i j k = Inr v \<and> G ! i ! j ! k = Expr v"
    by (rule christoffels_entry) (rule that)
  from ent [OF ijk(1) ijk(2) ijk(3)] obtain v
    where v: "entry kern conv P M syms i j k = Inr v" "G ! i ! j ! k = Expr v"
    by (elim exE conjE)
  from ent [OF ijk(1) ijk(3) ijk(2)] obtain v'
    where v': "entry kern conv P M syms i k j = Inr v'" "G ! i ! k ! j = Expr v'"
    by (elim exE conjE)
  note e = entry_Inr [OF v(1)] and e' = entry_Inr [OF v'(1)]
  have jk: "M ! k ! j = M ! j ! k" using sym ijk by simp
  have "projr (summand kern P M syms i j k n) = projr (summand kern P M syms i k j n)"
    if n: "n < ?d" for n
  proof -
    from e n obtain x where x: "summand kern P M syms i j k n = Inr x" by blast
    from e' n obtain y where y: "summand kern P M syms i k j n = Inr y" by blast
    from x obtain d1 d2 d3 where
      d: "diff kern (M ! n ! j) (syms ! k) = Inr d1"
         "diff kern (M ! n ! k) (syms ! j) = Inr d2"
         "diff kern (M ! j ! k) (syms ! n) = Inr d3"
      and xv: "x = (P ! i ! n / 2) * (d1 + d2 - d3)"
      by (rule summand_parts)
    from y obtain c1 c2 c3 where
      c: "diff kern (M ! n ! k) (syms ! j) = Inr c1"
         "diff kern (M ! n ! j) (syms ! k) = Inr c2"
         "diff kern (M ! k ! j) (syms ! n) = Inr c3"
      and yv: "y = (P ! i ! n / 2) * (c1 + c2 - c3)"
      by (rule summand_parts)
    have "c1 = d2" "c2 = d1" "c3 = d3" using c d jk by simp_all
    then have "x = y" unfolding xv yv by (simp only: add.commute)
    then show ?thesis using x y by simp
  qed
  then have "(\<Sum>n = 0 ..< ?d. projr (summand kern P M syms i j k n))
           = (\<Sum>n = 0 ..< ?d. projr (summand kern P M syms i k j n))"
    by (rule sum_upto_cong)
  with e e' have "Inr v = (Inr v' :: error + 'a)" by (simp only:)
  then have "v = v'" by simp
  then show ?thesis using v(2) v'(2) by simp
qed

text \<open>
  C4. On a valid input, whose metric is symmetric as the data model has it
  (\<open>metric[j][k] = metric[k][j]\<close>), the tensor either engine returns is symmetric in
  its last two indices: entry \<open>(i, j, k)\<close> equals entry \<open>(i, k, j)\<close>. The first two
  terms of the sum exchange under the swap of \<open>j\<close> and \<open>k\<close>, and the third, the
  derivative of \<open>metric[j][k]\<close>, is that of \<open>metric[k][j]\<close>.
\<close>

theorem christoffels_symmetric:
  fixes sympy :: "('a::field, 'a, 's) kernel" and symengine :: "('a, 'b::field, 's) kernel"
  assumes "\<forall>a<length syms. \<forall>b<length syms. list2d ! a ! b = list2d ! b ! a"
    and "i < length syms" and "j < length syms" and "k < length syms"
  shows "(christoffels_reference sympy list2d syms = Inr \<Gamma> \<longrightarrow> \<Gamma> ! i ! j ! k = \<Gamma> ! i ! k ! j) \<and>
         (christoffels_symengine symengine S list2d syms = Inr \<Gamma>' \<longrightarrow>
            \<Gamma>' ! i ! j ! k = \<Gamma>' ! i ! k ! j)"
proof (intro conjI impI)
  assume "christoffels_reference sympy list2d syms = Inr \<Gamma>"
  then have "christoffels sympy Inr list2d syms = Inr \<Gamma>"
    by (simp add: christoffels_reference_def)
  from christoffels_symmetric_generic [OF this assms]
  show "\<Gamma> ! i ! j ! k = \<Gamma> ! i ! k ! j" .
next
  assume "christoffels_symengine symengine S list2d syms = Inr \<Gamma>'"
  then have "christoffels symengine S list2d syms = Inr \<Gamma>'"
    by (simp add: christoffels_symengine_def)
  from christoffels_symmetric_generic [OF this assms]
  show "\<Gamma>' ! i ! j ! k = \<Gamma>' ! i ! k ! j" .
qed





lemma christoffels_valid:
  assumes "length M = length syms"
    and "\<forall>n<length syms. length (M ! n) = length syms"
    and "Matrix kern M = Inr mat"
    and "inv\<^sub>M kern mat = Inr P"
    and "length P = length syms"
    and "\<forall>n<length syms. length (P ! n) = length syms"
    and "\<forall>a<length syms. \<forall>b<length syms. \<forall>c<length syms.
           diff kern (M ! a ! b) (syms ! c) = Inr (D a b c)"
  shows "christoffels kern Inr M syms
         = Inr (tensor (length syms) (\<lambda>i j k. Expr (spec_formula P D (length syms) i j k)))"
proof -
  have "\<forall>i<length syms. \<forall>j<length syms. \<forall>k<length syms.
          entry kern Inr P M syms i j k = Inr (spec_formula P D (length syms) i j k)"
    using entry_valid [OF assms(1,2,5,6,7)] by blast
  from christoffels_total [OF assms(3,4) this] show ?thesis .
qed

lemma sample_run:
  "\<exists>\<Gamma>. christoffels sample_kernel Inr (main_metric sample_Symbol sample_sin) main_syms = Inr \<Gamma>"
proof -
  let ?M = "main_metric sample_Symbol sample_sin"
  let ?P = "[[1, 0, 0], [0, 1 / 4, 0], [0, 0, 25 / 36 :: rat]]"
  let ?D = "\<lambda>a b c. projr (diff sample_kernel (?M ! a ! b) (main_syms ! c))"
  have "christoffels sample_kernel Inr ?M main_syms
        = Inr (tensor (length main_syms)
                (\<lambda>i j k. Expr (spec_formula ?P ?D (length main_syms) i j k)))"
    by (rule christoffels_valid [where mat = ?M])
      (simp_all add: sample_metric_eval main_syms_def sample_kernel_def table_kernel_def
        All_less_Suc)
  then show ?thesis by blast
qed

theorem christoffels_symmetric_witness:
  "\<exists>\<Gamma>. christoffels_reference sample_kernel (main_metric sample_Symbol sample_sin) main_syms = Inr \<Gamma> \<and>
       \<Gamma> ! 2 ! 1 ! 2 = \<Gamma> ! 2 ! 2 ! 1"
proof -
  let ?M = "main_metric sample_Symbol sample_sin"
  from sample_run obtain \<Gamma> where run: "christoffels_reference sample_kernel ?M main_syms = Inr \<Gamma>"
    unfolding christoffels_reference_def by (elim exE)
  have sym: "\<forall>a<length main_syms. \<forall>b<length main_syms. ?M ! a ! b = ?M ! b ! a"
    by (simp add: sample_metric_eval main_syms_def All_less_Suc)
  have lt: "2 < length main_syms" "1 < length main_syms"
    by (simp_all add: main_syms_def)
  from christoffels_symmetric [OF sym lt(1) lt(2) lt(1), of sample_kernel \<Gamma>, THEN conjunct1] run
  have "\<Gamma> ! 2 ! 1 ! 2 = \<Gamma> ! 2 ! 2 ! 1" by (rule mp)
  with run show ?thesis by (intro exI conjI)
qed

lemma hom_sum:
  assumes "h 0 = 0" "\<forall>x y. h (x + y) = h x + h y"
  shows "h (\<Sum>n = 0 ..< d. f n) = (\<Sum>n = 0 ..< (d::nat). h (f n))"
  using assms by (induction d) simp_all

lemma hom_summand:
  fixes h :: "'b::field \<Rightarrow> 'a::field"
  assumes hadd: "\<forall>x y. h (x + y) = h x + h y"
    and hsub: "\<forall>x y. h (x - y) = h x - h y"
    and hmul: "\<forall>x y. h (x * y) = h x * h y"
    and hhalf: "\<forall>x. h (x / 2) = h x / 2"
  shows "h ((q / 2) * (c1 + c2 - c3)) = (h q / 2) * (h c1 + h c2 - h c3)"
proof -
  have "h ((q / 2) * (c1 + c2 - c3)) = h (q / 2) * h (c1 + c2 - c3)"
    using hmul by (rule allE) (erule allE)
  also have "h (q / 2) = h q / 2" using hhalf by (rule allE)
  also have "h (c1 + c2 - c3) = h (c1 + c2) - h c3" using hsub by (rule allE) (erule allE)
  also have "h (c1 + c2) = h c1 + h c2" using hadd by (rule allE) (erule allE)
  finally show ?thesis .
qed

text \<open>
  C1. Let the conversion \<open>S\<close> return, whenever it returns, the image under a map \<open>h\<close>
  that keeps the mathematical value: \<open>h\<close> respects \<open>0\<close>, \<open>+\<close>, \<open>-\<close>, \<open>*\<close> and
  \<open>/ 2\<close>. Let the two kernels agree through \<open>h\<close> on the inverse of the metric and on
  the derivatives of its entries. Then, when both engines return, their tensors have
  the same entry at every triple \<open>(i, j, k)\<close>.
\<close>

theorem backends_agree:
  fixes sympy :: "('a::field, 'a, 's) kernel" and symengine :: "('a, 'b::field, 's) kernel"
    and h :: "'b \<Rightarrow> 'a"
  assumes conv: "\<forall>x y. S x = Inr y \<longrightarrow> y = h x"
    and h0: "h 0 = 0"
    and hadd: "\<forall>x y. h (x + y) = h x + h y"
    and hsub: "\<forall>x y. h (x - y) = h x - h y"
    and hmul: "\<forall>x y. h (x * y) = h x * h y"
    and hhalf: "\<forall>x. h (x / 2) = h x / 2"
    and inv: "\<forall>m m' P Q. Matrix sympy list2d = Inr m \<and> inv\<^sub>M sympy m = Inr P \<and>
                Matrix symengine list2d = Inr m' \<and> inv\<^sub>M symengine m' = Inr Q \<longrightarrow>
                (\<forall>a<length syms. \<forall>b<length syms. h (Q ! a ! b) = P ! a ! b)"
    and dif: "\<forall>a<length syms. \<forall>b<length syms. \<forall>c<length syms. \<forall>x y.
                diff sympy (list2d ! a ! b) (syms ! c) = Inr x \<and>
                diff symengine (list2d ! a ! b) (syms ! c) = Inr y \<longrightarrow> h y = x"
    and ref: "christoffels_reference sympy list2d syms = Inr \<Gamma>"
    and sym: "christoffels_symengine symengine S list2d syms = Inr \<Gamma>'"
    and ijk: "i < length syms" "j < length syms" "k < length syms"
  shows "\<Gamma> ! i ! j ! k = \<Gamma>' ! i ! j ! k"
proof -
  let ?d = "length syms"
  from ref have ref': "christoffels sympy Inr list2d syms = Inr \<Gamma>"
    by (simp add: christoffels_reference_def)
  from sym have sym': "christoffels symengine S list2d syms = Inr \<Gamma>'"
    by (simp add: christoffels_symengine_def)
  from ref' obtain m P
    where m: "Matrix sympy list2d = Inr m" and P: "inv\<^sub>M sympy m = Inr P"
      and ent: "\<And>i j k. i < ?d \<Longrightarrow> j < ?d \<Longrightarrow> k < ?d \<Longrightarrow>
           \<exists>v. entry sympy Inr P list2d syms i j k = Inr v \<and> \<Gamma> ! i ! j ! k = Expr v"
    by (rule christoffels_entry) (rule that)
  from sym' obtain m' Q
    where m': "Matrix symengine list2d = Inr m'" and Q: "inv\<^sub>M symengine m' = Inr Q"
      and ent': "\<And>i j k. i < ?d \<Longrightarrow> j < ?d \<Longrightarrow> k < ?d \<Longrightarrow>
           \<exists>v. entry symengine S Q list2d syms i j k = Inr v \<and> \<Gamma>' ! i ! j ! k = Expr v"
    by (rule christoffels_entry) (rule that)
  from ent [OF ijk] obtain v
    where v: "entry sympy Inr P list2d syms i j k = Inr v" "\<Gamma> ! i ! j ! k = Expr v"
    by (elim exE conjE)
  from ent' [OF ijk] obtain v'
    where v': "entry symengine S Q list2d syms i j k = Inr v'" "\<Gamma>' ! i ! j ! k = Expr v'"
    by (elim exE conjE)
  from inv [rule_format, of m P m' Q] m P m' Q
  have PQ: "\<And>a b. a < ?d \<Longrightarrow> b < ?d \<Longrightarrow> h (Q ! a ! b) = P ! a ! b"
    by simp
  have DD: "\<And>a b c x y. a < ?d \<Longrightarrow> b < ?d \<Longrightarrow> c < ?d \<Longrightarrow>
      diff sympy (list2d ! a ! b) (syms ! c) = Inr x \<Longrightarrow>
      diff symengine (list2d ! a ! b) (syms ! c) = Inr y \<Longrightarrow> h y = x"
    using dif [rule_format] by simp
  note e = entry_Inr [OF v(1)] and e' = entry_Inr [OF v'(1)]
  have "h (projr (summand symengine Q list2d syms i j k n))
        = projr (summand sympy P list2d syms i j k n)"
    if n: "n < ?d" for n
  proof -
    from e n obtain x where x: "summand sympy P list2d syms i j k n = Inr x" by blast
    from e' n obtain y where y: "summand symengine Q list2d syms i j k n = Inr y" by blast
    from x obtain d1 d2 d3 where
      d: "diff sympy (list2d ! n ! j) (syms ! k) = Inr d1"
         "diff sympy (list2d ! n ! k) (syms ! j) = Inr d2"
         "diff sympy (list2d ! j ! k) (syms ! n) = Inr d3"
      and xv: "x = (P ! i ! n / 2) * (d1 + d2 - d3)"
      by (rule summand_parts)
    from y obtain c1 c2 c3 where
      c: "diff symengine (list2d ! n ! j) (syms ! k) = Inr c1"
         "diff symengine (list2d ! n ! k) (syms ! j) = Inr c2"
         "diff symengine (list2d ! j ! k) (syms ! n) = Inr c3"
      and yv: "y = (Q ! i ! n / 2) * (c1 + c2 - c3)"
      by (rule summand_parts)
    have 1: "h c1 = d1" using n ijk(2,3) d(1) c(1) by (rule DD)
    have 2: "h c2 = d2" using n ijk(3,2) d(2) c(2) by (rule DD)
    have 3: "h c3 = d3" using ijk(2,3) n d(3) c(3) by (rule DD)
    have 4: "h (Q ! i ! n) = P ! i ! n" using ijk(1) n by (rule PQ)
    have "h y = (h (Q ! i ! n) / 2) * (h c1 + h c2 - h c3)"
      unfolding yv using hadd hsub hmul hhalf by (rule hom_summand)
    also have "\<dots> = x" by (simp only: 1 2 3 4 xv)
    finally show ?thesis using x y by simp
  qed
  then have "(\<Sum>n = 0 ..< ?d. h (projr (summand symengine Q list2d syms i j k n)))
           = (\<Sum>n = 0 ..< ?d. projr (summand sympy P list2d syms i j k n))"
    by (rule sum_upto_cong)
  then have hs: "h (\<Sum>n = 0 ..< ?d. projr (summand symengine Q list2d syms i j k n))
           = (\<Sum>n = 0 ..< ?d. projr (summand sympy P list2d syms i j k n))"
    by (simp only: hom_sum [OF h0 hadd])
  from e' have "S (\<Sum>n = 0 ..< ?d. projr (summand symengine Q list2d syms i j k n)) = Inr v'"
    by (rule conjunct2)
  with conv have "v' = h (\<Sum>n = 0 ..< ?d. projr (summand symengine Q list2d syms i j k n))"
    by blast
  moreover from e have "Inr (\<Sum>n = 0 ..< ?d. projr (summand sympy P list2d syms i j k n))
      = (Inr v :: error + 'a)"
    by (rule conjunct2)
  then have "v = (\<Sum>n = 0 ..< ?d. projr (summand sympy P list2d syms i j k n))" by simp
  ultimately have "v = v'" by (simp only: hs)
  then show ?thesis using v(2) v'(2) by simp
qed


lemma christoffels_valid_conv:
  assumes "length M = length syms"
    and "\<forall>n<length syms. length (M ! n) = length syms"
    and "Matrix kern M = Inr mat"
    and "inv\<^sub>M kern mat = Inr P"
    and "length P = length syms"
    and "\<forall>n<length syms. length (P ! n) = length syms"
    and "\<forall>a<length syms. \<forall>b<length syms. \<forall>c<length syms.
           diff kern (M ! a ! b) (syms ! c) = Inr (D a b c)"
    and "\<forall>x. conv x = Inr (h x)"
  shows "christoffels kern conv M syms
         = Inr (tensor (length syms) (\<lambda>i j k. Expr (h (spec_formula P D (length syms) i j k))))"
proof -
  have "\<forall>i<length syms. \<forall>j<length syms. \<forall>k<length syms.
          entry kern conv P M syms i j k = Inr (h (spec_formula P D (length syms) i j k))"
    using entry_valid [OF assms(1,2,5,6,7)] assms(8) by simp
  from christoffels_total [OF assms(3,4) this] show ?thesis .
qed

lemma canonical_run:
  "\<exists>\<Gamma>. christoffels canonical_kernel Inr [[1, 0, 0], [0, 4, 0], [0, 0, 36 / 25]] main_syms = Inr \<Gamma>"
proof -
  let ?M = "[[1, 0, 0], [0, 4, 0], [0, 0, 36 / 25 :: real]]"
  let ?P = "[[1, 0, 0], [0, 1 / 4, 0], [0, 0, 25 / 36 :: real]]"
  let ?D = "\<lambda>a b c. projr (diff canonical_kernel (?M ! a ! b) (main_syms ! c))"
  have "christoffels canonical_kernel Inr ?M main_syms
        = Inr (tensor (length main_syms)
                (\<lambda>i j k. Expr (spec_formula ?P ?D (length main_syms) i j k)))"
    by (rule christoffels_valid [where mat = ?M])
      (simp_all add: main_syms_def canonical_kernel_def table_kernel_def All_less_Suc)
  then show ?thesis by blast
qed

lemma alternate_run:
  "\<exists>\<Gamma>. christoffels alternate_kernel alternate_S [[1, 0, 0], [0, 4, 0], [0, 0, 36 / 25]] main_syms
        = Inr \<Gamma> \<and> \<Gamma> ! 1 ! 2 ! 2 = Expr (- (12 / 25))"
proof -
  let ?M = "[[1, 0, 0], [0, 4, 0], [0, 0, 36 / 25 :: real]]"
  let ?Mq = "[[1, 0, 0], [0, 4, 0], [0, 0, 36 / 25 :: rat]]"
  let ?P = "[[1, 0, 0], [0, 1 / 4, 0], [0, 0, 25 / 36 :: rat]]"
  let ?D = "\<lambda>a b c. projr (diff alternate_kernel (?M ! a ! b) (main_syms ! c))"
  have run: "christoffels alternate_kernel alternate_S ?M main_syms
        = Inr (tensor (length main_syms)
                (\<lambda>i j k. Expr (of_rat (spec_formula ?P ?D (length main_syms) i j k))))"
    by (rule christoffels_valid_conv [where mat = ?Mq])
      (simp_all add: main_syms_def alternate_kernel_def alternate_S_def All_less_Suc)
  have len: "length main_syms = 3" by (simp add: main_syms_def)
  have "spec_formula ?P ?D 3 1 2 2 = - (12 / 25)"
    by (simp add: spec_formula_def main_syms_def alternate_kernel_def eval_nat_numeral)
  then have "tensor 3 (\<lambda>i j k. Expr (of_rat (spec_formula ?P ?D 3 i j k))) ! 1 ! 2 ! 2
        = Expr (- (12 / 25) :: real)"
    by (simp add: nth_tensor of_rat_minus of_rat_divide)
  with run show ?thesis by (simp add: len)
qed


text \<open>
  The theorem at two kernels that differ: the canonical one over the reals, the
  alternate one over the rationals, the conversion the embedding of the rationals. Both
  engines return on the spherical metric at the sample point, and the entries
  \<open>(1, 2, 2)\<close>, \<open>-sin \<theta> cos \<theta> = -12/25\<close>, agree.
\<close>

theorem backends_agree_witness:
  "\<exists>\<Gamma> \<Gamma>'. christoffels_reference canonical_kernel [[1, 0, 0], [0, 4, 0], [0, 0, 36 / 25]] main_syms
        = Inr \<Gamma> \<and>
     christoffels_symengine alternate_kernel alternate_S [[1, 0, 0], [0, 4, 0], [0, 0, 36 / 25]] main_syms
        = Inr \<Gamma>' \<and>
     \<Gamma> ! 1 ! 2 ! 2 = \<Gamma>' ! 1 ! 2 ! 2 \<and> \<Gamma>' ! 1 ! 2 ! 2 = Expr (- (12 / 25))"
proof -
  let ?M = "[[1, 0, 0], [0, 4, 0], [0, 0, 36 / 25 :: real]]"
  let ?h = "of_rat :: rat \<Rightarrow> real"
  from canonical_run obtain \<Gamma> where ref: "christoffels_reference canonical_kernel ?M main_syms = Inr \<Gamma>"
    unfolding christoffels_reference_def by (elim exE)
  from alternate_run obtain \<Gamma>'
    where sym: "christoffels_symengine alternate_kernel alternate_S ?M main_syms = Inr \<Gamma>'"
      and val: "\<Gamma>' ! 1 ! 2 ! 2 = Expr (- (12 / 25))"
    unfolding christoffels_symengine_def by (elim exE conjE)
  have conv: "\<forall>x y. alternate_S x = Inr y \<longrightarrow> y = ?h x"
    by (simp add: alternate_S_def)
  have h0: "?h 0 = 0" by simp
  have hadd: "\<forall>x y. ?h (x + y) = ?h x + ?h y" by (simp add: of_rat_add)
  have hsub: "\<forall>x y. ?h (x - y) = ?h x - ?h y" by (simp add: of_rat_diff)
  have hmul: "\<forall>x y. ?h (x * y) = ?h x * ?h y" by (simp add: of_rat_mult)
  have hhalf: "\<forall>x. ?h (x / 2) = ?h x / 2" by (simp add: of_rat_divide)
  have inv: "\<forall>m m' P Q. Matrix canonical_kernel ?M = Inr m \<and> inv\<^sub>M canonical_kernel m = Inr P \<and>
                Matrix alternate_kernel ?M = Inr m' \<and> inv\<^sub>M alternate_kernel m' = Inr Q \<longrightarrow>
                (\<forall>a<length main_syms. \<forall>b<length main_syms. ?h (Q ! a ! b) = P ! a ! b)"
  proof (rule allI, rule allI, rule allI, rule allI, rule impI, elim conjE)
    fix m m' P Q
    assume "Matrix canonical_kernel ?M = Inr m" and P: "inv\<^sub>M canonical_kernel m = Inr P"
      and "Matrix alternate_kernel ?M = Inr m'" and Q: "inv\<^sub>M alternate_kernel m' = Inr Q"
    then have m: "m = ?M" and m': "m' = [[1, 0, 0], [0, 4, 0], [0, 0, 36 / 25]]"
      by (simp_all add: canonical_kernel_def alternate_kernel_def table_kernel_def)
    from P m have Pv: "P = [[1, 0, 0], [0, 1 / 4, 0], [0, 0, 25 / 36]]"
      by (simp add: canonical_kernel_def table_kernel_def)
    from Q m' have Qv: "Q = [[1, 0, 0], [0, 1 / 4, 0], [0, 0, 25 / 36]]"
      by (simp add: alternate_kernel_def)
    show "\<forall>a<length main_syms. \<forall>b<length main_syms. ?h (Q ! a ! b) = P ! a ! b"
      unfolding Pv Qv
      by (simp add: main_syms_def All_less_Suc of_rat_divide)
  qed
  have dif: "\<forall>a<length main_syms. \<forall>b<length main_syms. \<forall>c<length main_syms. \<forall>x y.
                diff canonical_kernel (?M ! a ! b) (main_syms ! c) = Inr x \<and>
                diff alternate_kernel (?M ! a ! b) (main_syms ! c) = Inr y \<longrightarrow> ?h y = x"
    by (simp add: main_syms_def All_less_Suc canonical_kernel_def alternate_kernel_def
        table_kernel_def of_rat_divide)
  have lt: "1 < length main_syms" "2 < length main_syms"
    by (simp_all add: main_syms_def)
  from backends_agree [where h = ?h, OF conv h0 hadd hsub hmul hhalf inv dif ref sym lt(1) lt(2) lt(2)]
  have "\<Gamma> ! 1 ! 2 ! 2 = \<Gamma>' ! 1 ! 2 ! 2" .
  with ref sym val show ?thesis by (intro exI conjI)
qed

lemma tensor_const: "tensor d (\<lambda>i j k. c) = replicate d (replicate d (replicate d c))"
  by (simp add: tensor_def map_replicate_const)

lemma nth_eye: "a < d \<Longrightarrow> b < d \<Longrightarrow> eye d ! a ! b = (if a = b then 1 else 0)"
  by (simp add: eye_def)

lemma spec_formula_zero: "spec_formula P (\<lambda>a b c. 0) d i j k = 0"
  by (simp add: spec_formula_def)

text \<open>
  C5. For the identity matrix of any size as metric and as many symbols, the reference
  engine returns the tensor whose every entry is the expression zero, provided the
  kernel inverts the matrix (to a matrix of the same shape) and differentiates the
  constants 0 and 1 to 0.
\<close>

theorem flat_space_zero:
  fixes sympy :: "('a::field, 'a, 's) kernel"
  assumes "Matrix sympy (eye (length syms)) = Inr mat"
    and "inv\<^sub>M sympy mat = Inr P"
    and "length P = length syms"
    and "\<forall>n<length syms. length (P ! n) = length syms"
    and "\<forall>x\<in>set syms. diff sympy 0 x = Inr 0 \<and> diff sympy 1 x = Inr 0"
  shows "christoffels_reference sympy (eye (length syms)) syms
         = Inr (replicate (length syms) (replicate (length syms)
                  (replicate (length syms) (Expr 0))))"
proof -
  let ?d = "length syms"
  have 1: "length (eye ?d :: 'a list list) = ?d" by (simp add: eye_def)
  have 2: "\<forall>n<?d. length ((eye ?d :: 'a list list) ! n) = ?d" by (simp add: eye_def)
  have 7: "\<forall>a<?d. \<forall>b<?d. \<forall>c<?d. diff sympy (eye ?d ! a ! b) (syms ! c) = Inr 0"
    using assms(5) by (simp add: nth_eye)
  from christoffels_valid [OF 1 2 assms(1,2,3,4) 7]
  show ?thesis
    by (simp only: christoffels_reference_def spec_formula_zero tensor_const)
qed

theorem flat_space_zero_witness:
  "christoffels_reference constant_kernel (eye (length [''x'', ''y''])) [''x'', ''y'']
   = Inr (replicate (length [''x'', ''y'']) (replicate (length [''x'', ''y''])
            (replicate (length [''x'', ''y'']) (Expr 0))))"
proof (rule flat_space_zero [where mat = "[[1, 0], [0, 1]]" and P = "[[1, 0], [0, 1]]"])
  show "Matrix constant_kernel (eye (length [''x'', ''y''])) = Inr [[1, 0], [0, 1]]"
    by (simp add: constant_kernel_def table_kernel_def eye_def upt_rec_numeral eval_nat_numeral)
  show "inv\<^sub>M constant_kernel [[1, 0], [0, 1]] = Inr [[1, 0], [0, 1]]"
    by (simp add: constant_kernel_def table_kernel_def)
  show "length [[1, 0], [0, 1 :: rat]] = length [''x'', ''y'']" by simp
  show "\<forall>n<length [''x'', ''y'']. length ([[1, 0], [0, 1 :: rat]] ! n) = length [''x'', ''y'']"
    by (simp add: All_less_Suc)
  show "\<forall>x\<in>set [''x'', ''y'']. diff constant_kernel 0 x = Inr 0 \<and> diff constant_kernel 1 x = Inr 0"
    by (simp add: constant_kernel_def table_kernel_def)
qed

text \<open>
  C2. For the metric \<open>main\<close> builds, \<open>diag(1, r\<^sup>2, r\<^sup>2 sin\<^sup>2 \<theta>)\<close> with the symbols
  \<open>(r, \<theta>, \<phi>)\<close>, the tensor of the reference engine is the closed form: with
  \<open>s\<close> for \<open>sin \<theta>\<close> and \<open>c\<close> for \<open>cos \<theta>\<close>,
  \<open>\<Gamma>[0][1][1] = -r\<close>, \<open>\<Gamma>[0][2][2] = -r s\<^sup>2\<close>, \<open>\<Gamma>[1][0][1] = \<Gamma>[1][1][0] = 1/r\<close>,
  \<open>\<Gamma>[1][2][2] = -s c\<close>, \<open>\<Gamma>[2][0][2] = \<Gamma>[2][2][0] = 1/r\<close>,
  \<open>\<Gamma>[2][1][2] = \<Gamma>[2][2][1] = c/s\<close>, and zero everywhere else. What the kernel is
  assumed to compute is the calculus: the inverse of the diagonal matrix, and the
  derivatives of \<open>0\<close>, \<open>1\<close>, \<open>r\<^sup>2\<close> and \<open>r\<^sup>2 s\<^sup>2\<close> by each symbol.
\<close>

theorem spherical_closed_form:
  fixes sympy :: "('a::field_char_0, 'a, string) kernel"
  assumes r: "Symbol ''r'' = r" and s: "sin\<^sub>e (Symbol ''theta'') = s"
    and r0: "r \<noteq> 0" and s0: "s \<noteq> 0"
    and mat: "Matrix sympy (main_metric Symbol sin\<^sub>e) = Inr (main_metric Symbol sin\<^sub>e)"
    and inv: "inv\<^sub>M sympy (main_metric Symbol sin\<^sub>e)
              = Inr [[1, 0, 0], [0, 1 / r ^ 2, 0], [0, 0, 1 / (r ^ 2 * s ^ 2)]]"
    and d0: "\<forall>x\<in>set main_syms. diff sympy 0 x = Inr 0 \<and> diff sympy 1 x = Inr 0"
    and d1: "diff sympy (r ^ 2) ''r'' = Inr (2 * r)"
            "diff sympy (r ^ 2) ''theta'' = Inr 0"
            "diff sympy (r ^ 2) ''phi'' = Inr 0"
    and d2: "diff sympy (r ^ 2 * s ^ 2) ''r'' = Inr (2 * r * s ^ 2)"
            "diff sympy (r ^ 2 * s ^ 2) ''theta'' = Inr (2 * r ^ 2 * s * c)"
            "diff sympy (r ^ 2 * s ^ 2) ''phi'' = Inr 0"
  shows "fst (main Symbol sin\<^sub>e sympy symengine S)
         = Inr [[[Expr 0, Expr 0, Expr 0],
                 [Expr 0, Expr (- r), Expr 0],
                 [Expr 0, Expr 0, Expr (- (r * s ^ 2))]],
                [[Expr 0, Expr (1 / r), Expr 0],
                 [Expr (1 / r), Expr 0, Expr 0],
                 [Expr 0, Expr 0, Expr (- (s * c))]],
                [[Expr 0, Expr 0, Expr (1 / r)],
                 [Expr 0, Expr 0, Expr (c / s)],
                 [Expr (1 / r), Expr (c / s), Expr 0]]]"
proof -
  let ?M = "[[1, 0, 0], [0, r ^ 2, 0], [0, 0, r ^ 2 * s ^ 2]]"
  let ?P = "[[1, 0, 0], [0, 1 / r ^ 2, 0], [0, 0, 1 / (r ^ 2 * s ^ 2)]]"
  let ?D = "\<lambda>a b c'. [[[0, 0, 0], [0, 0, 0], [0, 0, 0]],
                       [[0, 0, 0], [2 * r, 0, 0], [0, 0, 0]],
                       [[0, 0, 0], [0, 0, 0], [2 * r * s ^ 2, 2 * r ^ 2 * s * c, 0]]] ! a ! b ! c'"
  have M: "main_metric Symbol sin\<^sub>e = ?M"
    by (simp add: main_metric_eval r s)
  have len: "length main_syms = 3" by (simp add: main_syms_def)
  have 1: "length ?M = length main_syms" by (simp add: len)
  have 2: "\<forall>n<length main_syms. length (?M ! n) = length main_syms"
    by (simp add: len All_less_Suc eval_nat_numeral)
  have 3: "Matrix sympy ?M = Inr ?M" using mat by (simp only: M)
  have 4: "inv\<^sub>M sympy ?M = Inr ?P" using inv by (simp only: M)
  have 5: "length ?P = length main_syms" by (simp add: len)
  have 6: "\<forall>n<length main_syms. length (?P ! n) = length main_syms"
    by (simp add: len All_less_Suc eval_nat_numeral)
  have 7: "\<forall>a<length main_syms. \<forall>b<length main_syms. \<forall>c'<length main_syms.
             diff sympy (?M ! a ! b) (main_syms ! c') = Inr (?D a b c')"
    using d0 d1 d2 by (simp add: main_syms_def All_less_Suc eval_nat_numeral)
  have run: "christoffels sympy Inr ?M main_syms
        = Inr (tensor 3 (\<lambda>i j k. Expr (spec_formula ?P ?D 3 i j k)))"
    using christoffels_valid [OF 1 2 3 4 5 6 7] by (simp only: len)
  have e: "spec_formula ?P ?D 3 i j k
        = (?P ! i ! 0 / 2) * (?D 0 j k + ?D 0 k j - ?D j k 0)
        + (?P ! i ! 1 / 2) * (?D 1 j k + ?D 1 k j - ?D j k 1)
        + (?P ! i ! 2 / 2) * (?D 2 j k + ?D 2 k j - ?D j k 2)" for i j k
    by (simp add: spec_formula_def eval_nat_numeral)
  have t: "tensor 3 F = [[[F 0 0 0, F 0 0 1, F 0 0 2], [F 0 1 0, F 0 1 1, F 0 1 2], [F 0 2 0, F 0 2 1, F 0 2 2]],
                         [[F 1 0 0, F 1 0 1, F 1 0 2], [F 1 1 0, F 1 1 1, F 1 1 2], [F 1 2 0, F 1 2 1, F 1 2 2]],
                         [[F 2 0 0, F 2 0 1, F 2 0 2], [F 2 1 0, F 2 1 1, F 2 1 2], [F 2 2 0, F 2 2 1, F 2 2 2]]]"
    for F :: "nat \<Rightarrow> nat \<Rightarrow> nat \<Rightarrow> 'x"
    by (simp add: tensor_def upt_rec_numeral eval_nat_numeral)
  have "tensor 3 (\<lambda>i j k. Expr (spec_formula ?P ?D 3 i j k))
        = [[[Expr 0, Expr 0, Expr 0],
                 [Expr 0, Expr (- r), Expr 0],
                 [Expr 0, Expr 0, Expr (- (r * s ^ 2))]],
                [[Expr 0, Expr (1 / r), Expr 0],
                 [Expr (1 / r), Expr 0, Expr 0],
                 [Expr 0, Expr 0, Expr (- (s * c))]],
                [[Expr 0, Expr 0, Expr (1 / r)],
                 [Expr 0, Expr 0, Expr (c / s)],
                 [Expr (1 / r), Expr (c / s), Expr 0]]]"
    unfolding t e using r0 s0 by (simp add: eval_nat_numeral power2_eq_square)
  with run show ?thesis
    by (simp add: main_def Let_def christoffels_reference_def M)
qed


theorem spherical_closed_form_witness:
  "fst (main sample_Symbol sample_sin sample_kernel sample_kernel Inr)
         = Inr [[[Expr 0, Expr 0, Expr 0],
                 [Expr 0, Expr (- 2), Expr 0],
                 [Expr 0, Expr 0, Expr (- (2 * (3 / 5) ^ 2))]],
                [[Expr 0, Expr (1 / 2), Expr 0],
                 [Expr (1 / 2), Expr 0, Expr 0],
                 [Expr 0, Expr 0, Expr (- (3 / 5 * (4 / 5)))]],
                [[Expr 0, Expr 0, Expr (1 / 2)],
                 [Expr 0, Expr 0, Expr (4 / 5 / (3 / 5))],
                 [Expr (1 / 2), Expr (4 / 5 / (3 / 5)), Expr 0]]]"
proof (rule spherical_closed_form [where r = 2 and s = "3 / 5" and c = "4 / 5"])
  show "sample_Symbol ''r'' = 2" by (simp add: sample_Symbol_def)
  show "sample_sin (sample_Symbol ''theta'') = 3 / 5" by (simp add: sample_sin_def)
  show "(2::rat) \<noteq> 0" by simp
  show "(3 / 5 :: rat) \<noteq> 0" by simp
  show "Matrix sample_kernel (main_metric sample_Symbol sample_sin)
        = Inr (main_metric sample_Symbol sample_sin)"
    by (simp add: sample_kernel_def table_kernel_def)
  show "inv\<^sub>M sample_kernel (main_metric sample_Symbol sample_sin)
        = Inr [[1, 0, 0], [0, 1 / 2 ^ 2, 0], [0, 0, 1 / (2 ^ 2 * (3 / 5) ^ 2)]]"
    by (simp add: sample_kernel_def table_kernel_def sample_metric_eval power2_eq_square)
  show "\<forall>x\<in>set main_syms. diff sample_kernel 0 x = Inr 0 \<and> diff sample_kernel 1 x = Inr 0"
    by (simp add: sample_kernel_def table_kernel_def main_syms_def)
  show "diff sample_kernel (2 ^ 2) ''r'' = Inr (2 * 2)"
    by (simp add: sample_kernel_def table_kernel_def)
  show "diff sample_kernel (2 ^ 2) ''theta'' = Inr 0"
    by (simp add: sample_kernel_def table_kernel_def)
  show "diff sample_kernel (2 ^ 2) ''phi'' = Inr 0"
    by (simp add: sample_kernel_def table_kernel_def)
  show "diff sample_kernel (2 ^ 2 * (3 / 5) ^ 2) ''r'' = Inr (2 * 2 * (3 / 5) ^ 2)"
    by (simp add: sample_kernel_def table_kernel_def power2_eq_square)
  show "diff sample_kernel (2 ^ 2 * (3 / 5) ^ 2) ''theta'' = Inr (2 * 2 ^ 2 * (3 / 5) * (4 / 5))"
    by (simp add: sample_kernel_def table_kernel_def power2_eq_square)
  show "diff sample_kernel (2 ^ 2 * (3 / 5) ^ 2) ''phi'' = Inr 0"
    by (simp add: sample_kernel_def table_kernel_def power2_eq_square)
qed

section \<open>Where a singularity error can come from\<close>











end
